theory Spec2Isabelle
  imports Complex_Main
begin

section \<open>Values, events and the scheduler's world\<close>

text \<open>
  The JavaScript values that \<^verbatim>\<open>lastResult\<close> and the global \<^verbatim>\<open>window.zxDecodeResult\<close>
  take in \<^verbatim>\<open>src/scanner.js\<close>: never assigned (\<^verbatim>\<open>undefined\<close>), \<^verbatim>\<open>null\<close>, or a string.
  Numbers of the configuration (\<^verbatim>\<open>scanPeriod\<close>, \<^verbatim>\<open>refractoryPeriod\<close>, the frame counter) are
  integers; fractional and non-numeric settings are outside the model.
\<close>

datatype jsval = JUndefined | JNull | JStr string

text \<open>JavaScript truthiness: \<^verbatim>\<open>!result\<close> holds for undefined, null and the empty string.\<close>

fun truthy :: "jsval \<Rightarrow> bool" where
  "truthy JUndefined = False"
| "truthy JNull = False"
| "truthy (JStr s) = (s \<noteq> [])"

text \<open>\<^verbatim>\<open>window.zxDecodeResult += str\<close>: string concatenation after conversion of the left side.\<close>

fun js_append :: "jsval \<Rightarrow> string \<Rightarrow> jsval" where
  "js_append JUndefined s = JStr (''undefined'' @ s)"
| "js_append JNull s = JStr (''null'' @ s)"
| "js_append (JStr a) s = JStr (a @ s)"

text \<open>
  \<^verbatim>\<open>canvas.toDataURL('image/webp', 0.8)\<close>: the encoded still of a canvas of the given
  size; the pixels themselves are not modelled.
\<close>

datatype image = DataURL nat nat

datatype event = Scan string "image option" | ActiveEvent | InactiveEvent

text \<open>
  What the code does to its collaborators, in the order it does it: frame requests,
  calls of \<^verbatim>\<open>analyze\<close>, calls of the decoder library, camera calls, assignments of
  \<^verbatim>\<open>video.src\<close> and emitted events.
\<close>

datatype effect =
    RequestFrame
  | AnalyzeCall
  | Resize nat nat
  | DecodeQr
  | CameraStart nat
  | CameraStop nat
  | VideoSrc string
  | Emit event

datatype fsm_state = Stopped | Started | Active | Inactive

datatype fsm_event = EvStart | EvStop | EvActivate | EvDeactivate

datatype visibility = Visible | Hidden | Prerender

datatype error = Error string | FsmError fsm_event fsm_state | CameraFailure nat

text \<open>
  The camera provider: \<^verbatim>\<open>start()\<close> resolves to a stream URL or rejects
  (\<open>cam_stream = None\<close>); \<^verbatim>\<open>stop()\<close> releases it.
\<close>

record camera =
  cam_id :: nat
  cam_stream :: "string option"

text \<open>class ActiveScan (lines 6-61). \<open>refractoryTimeout\<close> is the deadline of the pending
  expiry timer, \<open>None\<close> when none is pending.\<close>

record active_scan =
  scanPeriod :: int
  captureImage :: bool
  refractoryPeriod :: int
  frameCount :: int
  active :: bool
  lastResult :: jsval
  refractoryTimeout :: "nat option"

text \<open>class Analyzer (lines 63-134). \<open>imageBuffer\<close> is \<^verbatim>\<open>null\<close> or the address that
  \<^verbatim>\<open>ZXing._resize\<close> returned.\<close>

record analyzer =
  imageBuffer :: "nat option"
  sensorLeft :: "int option"
  sensorTop :: "int option"
  sensorWidth :: "nat option"
  sensorHeight :: "nat option"
  canvasWidth :: nat
  canvasHeight :: nat
  canvasContext :: bool

text \<open>
  class Scanner (lines 136-297) together with the environment it runs in: the page's
  visibility, the clock in milliseconds, the decoder's global accumulator, the scan
  events waiting for their deferred turn, the cameras whose stream is on, the states the
  machine went through and the effects so far.
\<close>

record scanner =
  backgroundScan :: bool
  camera :: "camera option"
  videoSrc :: "string option"
  scan :: active_scan
  analyzer :: analyzer
  current :: fsm_state
  page :: visibility
  clock :: nat
  zxDecodeResult :: jsval
  deferred :: "(string \<times> image option) list"
  streaming :: "nat set"
  history :: "fsm_state list"
  trace :: "effect list"

text \<open>
  What the environment presents to one call of \<^verbatim>\<open>analyze\<close>: the video's pixel size,
  the address \<^verbatim>\<open>ZXing._resize\<close> would return, the status \<^verbatim>\<open>ZXing._decode_qr\<close> would
  return and the chunks it would pass to the decode callback, each with its
  \<^verbatim>\<open>resultIndex\<close>.
\<close>

record frame =
  videoWidth :: nat
  videoHeight :: nat
  resized :: nat
  decodeStatus :: int
  decodeChunks :: "(nat \<times> string) list"

definition tell :: "effect \<Rightarrow> scanner \<Rightarrow> scanner" where
  "tell e w = w\<lparr>trace := trace w @ [e]\<rparr>"

definition analyze_calls :: "scanner \<Rightarrow> nat" where
  "analyze_calls w = count_list (trace w) AnalyzeCall"

section \<open>Analyzer\<close>

text \<open>The decode callback (lines 77-84): reset on the first chunk, then append.\<close>

definition decodeCallback :: "jsval \<Rightarrow> nat \<times> string \<Rightarrow> jsval" where
  "decodeCallback acc chunk =
     js_append (if fst chunk = 0 then JStr [] else acc) (snd chunk)"

text \<open>\<^verbatim>\<open>!this.imageBuffer\<close>: null, or the address 0.\<close>

fun no_buffer :: "nat option \<Rightarrow> bool" where
  "no_buffer None = True"
| "no_buffer (Some p) = (p = 0)"

text \<open>\<^verbatim>\<open>Math.floor((full / 2) - (window / 2))\<close> (lines 98-99).\<close>

definition centred :: "nat \<Rightarrow> nat \<Rightarrow> int" where
  "centred full window = \<lfloor>(of_nat full :: rat) / 2 - of_nat window / 2\<rfloor>"

text \<open>
  \<^verbatim>\<open>Analyzer.analyze\<close> (lines 87-133). The result is \<^verbatim>\<open>null\<close> (\<open>None\<close>) or the object
  \<^verbatim>\<open>{ result, canvas }\<close>, the canvas given by its size. The transfer of the pixels into the
  decoder's buffer (lines 109-120) is part of what the decoder then answers, which the
  frame supplies.
\<close>

definition analyze :: "frame \<Rightarrow> scanner \<Rightarrow> (jsval \<times> nat \<times> nat) option \<times> scanner" where
  "analyze f w0 =
     (let w = tell AnalyzeCall w0; a = analyzer w in
      if videoWidth f = 0 then (None, w)
      else if no_buffer (imageBuffer a) then
        (None,
         tell (Resize (videoWidth f) (videoHeight f))
           (w\<lparr>analyzer := a\<lparr>
              sensorWidth := Some (videoWidth f),
              sensorHeight := Some (videoHeight f),
              sensorLeft := Some (centred (videoWidth f) (videoWidth f)),
              sensorTop := Some (centred (videoHeight f) (videoHeight f)),
              canvasWidth := videoWidth f,
              canvasHeight := videoHeight f,
              canvasContext := True,
              imageBuffer := Some (resized f)\<rparr>\<rparr>))
      else
        (let w1 = tell DecodeQr (w\<lparr>zxDecodeResult := foldl decodeCallback (zxDecodeResult w) (decodeChunks f)\<rparr>) in
         if decodeStatus f \<noteq> 0 then (None, w1)
         else (case zxDecodeResult w1 of
                 JStr r \<Rightarrow> (Some (JStr r, canvasWidth a, canvasHeight a), w1)
               | _ \<Rightarrow> (None, w1))))"

section \<open>ActiveScan\<close>

text \<open>\<^verbatim>\<open>ActiveScan.start\<close> and \<^verbatim>\<open>ActiveScan.stop\<close> (lines 17-24).\<close>

definition ActiveScan_start :: "scanner \<Rightarrow> scanner" where
  "ActiveScan_start w = tell RequestFrame (w\<lparr>scan := (scan w)\<lparr>active := True\<rparr>\<rparr>)"

definition ActiveScan_stop :: "scanner \<Rightarrow> scanner" where
  "ActiveScan_stop w = w\<lparr>scan := (scan w)\<lparr>active := False\<rparr>\<rparr>"

text \<open>
  The delay \<^verbatim>\<open>setTimeout\<close> makes of its second argument (line 52): the number is taken
  as a 32-bit signed integer, wrapping modulo \<open>2 ^ 32\<close>, and a negative delay counts
  as 0. A period from 0 to \<open>2 ^ 31 - 1\<close> milliseconds is its own delay; a period of
  \<open>2 ^ 31\<close> milliseconds gives a timer that is due at once.
\<close>

definition timer_delay :: "int \<Rightarrow> nat" where
  "timer_delay ms = (let d = ms mod 2 ^ 32 in if 2 ^ 31 \<le> d then 0 else nat d)"

text \<open>
  Lines 44-59 of \<^verbatim>\<open>_scan\<close>: what the tick does with the analysis it got.
  \<^verbatim>\<open>clearTimeout\<close> followed by \<^verbatim>\<open>setTimeout(..., this.refractoryPeriod)\<close> leaves one pending
  expiry timer, whose deadline replaces the old one. The scan event is queued for a
  later turn by \<^verbatim>\<open>setTimeout(..., 0)\<close>.
\<close>

definition suppress :: "jsval \<times> nat \<times> nat \<Rightarrow> scanner \<Rightarrow> scanner" where
  "suppress an w =
     (case an of (result, cw, ch) \<Rightarrow>
        if truthy result then
          (if result = lastResult (scan w) then w
           else
             (case result of
                JStr text \<Rightarrow>
                  w\<lparr>scan := (scan w)\<lparr>
                       refractoryTimeout :=
                         Some (clock w + timer_delay (refractoryPeriod (scan w))),
                       lastResult := result\<rparr>,
                    deferred := deferred w @
                       [(text, if captureImage (scan w) then Some (DataURL cw ch) else None)]\<rparr>
              | _ \<Rightarrow> w))
        else w)"

text \<open>\<^verbatim>\<open>ActiveScan._scan\<close> (lines 26-60): one frame tick.\<close>

definition ActiveScan_scan :: "frame \<Rightarrow> scanner \<Rightarrow> scanner" where
  "ActiveScan_scan f w =
     (if active (scan w) then
        (let w1 = tell RequestFrame w; n = frameCount (scan w1) + 1 in
         if n \<noteq> scanPeriod (scan w1) then w1\<lparr>scan := (scan w1)\<lparr>frameCount := n\<rparr>\<rparr>
         else
           (case analyze f (w1\<lparr>scan := (scan w1)\<lparr>frameCount := 0\<rparr>\<rparr>) of
              (None, w2) \<Rightarrow> w2
            | (Some an, w2) \<Rightarrow> suppress an w2))
      else w)"

text \<open>
  Time passing between ticks: the clock advances by \<open>dt\<close> milliseconds, the expiry timer
  fires once its deadline is reached (line 51), and the queued scan events are emitted
  (line 58). \<open>dt = 0\<close> is a turn of the event loop with no time passing.
\<close>

definition expire :: "scanner \<Rightarrow> scanner" where
  "expire w =
     (case refractoryTimeout (scan w) of
        None \<Rightarrow> w
      | Some d \<Rightarrow>
          if d \<le> clock w
          then w\<lparr>scan := (scan w)\<lparr>lastResult := JNull, refractoryTimeout := None\<rparr>\<rparr>
          else w)"

definition deliver :: "scanner \<Rightarrow> scanner" where
  "deliver w =
     w\<lparr>trace := trace w @ map (\<lambda>(text, img). Emit (Scan text img)) (deferred w),
       deferred := []\<rparr>"

definition elapse :: "nat \<Rightarrow> scanner \<Rightarrow> scanner" where
  "elapse dt w = deliver (expire (w\<lparr>clock := clock w + dt\<rparr>))"

datatype turn = Frame frame | Elapse nat

fun step :: "scanner \<Rightarrow> turn \<Rightarrow> scanner" where
  "step w (Frame f) = ActiveScan_scan f w"
| "step w (Elapse dt) = elapse dt w"

definition run :: "turn list \<Rightarrow> scanner \<Rightarrow> scanner" where
  "run ts w = foldl step w ts"

fun is_frame :: "turn \<Rightarrow> bool" where
  "is_frame (Frame f) = True"
| "is_frame (Elapse dt) = False"

definition frames :: "turn list \<Rightarrow> nat" where
  "frames ts = length (filter is_frame ts)"

text \<open>
  The scan events accepted so far, in order: those already emitted and those still
  waiting for their deferred turn.
\<close>

fun scan_of :: "effect \<Rightarrow> (string \<times> image option) list" where
  "scan_of (Emit (Scan text img)) = [(text, img)]"
| "scan_of e = []"

definition scans :: "scanner \<Rightarrow> (string \<times> image option) list" where
  "scans w = concat (map scan_of (trace w)) @ deferred w"





section \<open>Scanner\<close>

text \<open>
  The options object of the constructor, each field absent (\<^verbatim>\<open>undefined\<close>) or given;
  \<open>opt_video\<close> is the \<^verbatim>\<open>tagName\<close> of the element passed as \<^verbatim>\<open>opts.video\<close>.
\<close>

record opts =
  opt_video :: "string option"
  opt_mirror :: "bool option"
  opt_backgroundScan :: "bool option"
  opt_captureImage :: "bool option"
  opt_scanPeriod :: "int option"
  opt_refractoryPeriod :: "int option"

text \<open>\<^verbatim>\<open>x || d\<close> on an optional number and on an optional boolean: 0, false and
  undefined give the default.\<close>

fun or_int :: "int option \<Rightarrow> int \<Rightarrow> int" where
  "or_int None d = d"
| "or_int (Some n) d = (if n = 0 then d else n)"

fun or_bool :: "bool option \<Rightarrow> bool \<Rightarrow> bool" where
  "or_bool None d = d"
| "or_bool (Some b) d = (if b then True else d)"

text \<open>\<^verbatim>\<open>_configureVideo\<close> (lines 276-296): the check of the element; its styling is not
  modelled.\<close>

definition configureVideo :: "opts \<Rightarrow> error + unit" where
  "configureVideo opts =
     (case opt_video opts of
        None \<Rightarrow> Inr ()
      | Some tag \<Rightarrow>
          if tag \<noteq> ''VIDEO'' then Inl (Error ''Video must be a <video> element.'')
          else Inr ())"

text \<open>The constructors of ActiveScan (lines 7-15) and Analyzer (lines 64-85).\<close>

definition new_ActiveScan :: "bool \<Rightarrow> int \<Rightarrow> int \<Rightarrow> active_scan" where
  "new_ActiveScan capture period refractory =
     \<lparr>scanPeriod = period, captureImage = capture, refractoryPeriod = refractory,
      frameCount = 0, active = False, lastResult = JUndefined, refractoryTimeout = None\<rparr>"

definition new_Analyzer :: analyzer where
  "new_Analyzer =
     \<lparr>imageBuffer = None, sensorLeft = None, sensorTop = None, sensorWidth = None,
      sensorHeight = None, canvasWidth = 300, canvasHeight = 150, canvasContext = False\<rparr>"

text \<open>
  The constructor of Scanner (lines 137-212), on a page whose visibility is \<open>vis\<close>, at
  time 0, with the decoder's accumulator not yet assigned.
\<close>

definition new_Scanner :: "opts \<Rightarrow> visibility \<Rightarrow> error + scanner" where
  "new_Scanner opts vis =
     (case configureVideo opts of
        Inl e \<Rightarrow> Inl e
      | Inr u \<Rightarrow>
          Inr \<lparr>backgroundScan = or_bool (opt_backgroundScan opts) False,
               camera = None,
               videoSrc = None,
               scan = new_ActiveScan (or_bool (opt_captureImage opts) False)
                        (or_int (opt_scanPeriod opts) 1)
                        (or_int (opt_refractoryPeriod opts) (5 * 1000)),
               analyzer = new_Analyzer,
               current = Stopped,
               page = vis,
               clock = 0,
               zxDecodeResult = JUndefined,
               deferred = [],
               streaming = {},
               history = [Stopped],
               trace = [Emit InactiveEvent]\<rparr>)"

text \<open>The setters and getters (lines 229-251).\<close>

definition set_captureImage :: "bool \<Rightarrow> scanner \<Rightarrow> scanner" where
  "set_captureImage capture w = w\<lparr>scan := (scan w)\<lparr>captureImage := capture\<rparr>\<rparr>"

definition get_captureImage :: "scanner \<Rightarrow> bool" where
  "get_captureImage w = captureImage (scan w)"

definition set_scanPeriod :: "int \<Rightarrow> scanner \<Rightarrow> scanner" where
  "set_scanPeriod period w = w\<lparr>scan := (scan w)\<lparr>scanPeriod := period\<rparr>\<rparr>"

definition get_scanPeriod :: "scanner \<Rightarrow> int" where
  "get_scanPeriod w = scanPeriod (scan w)"

definition set_refractoryPeriod :: "int \<Rightarrow> scanner \<Rightarrow> scanner" where
  "set_refractoryPeriod period w = w\<lparr>scan := (scan w)\<lparr>refractoryPeriod := period\<rparr>\<rparr>"

definition get_refractoryPeriod :: "scanner \<Rightarrow> int" where
  "get_refractoryPeriod w = refractoryPeriod (scan w)"

text \<open>
  \<^verbatim>\<open>_enableScan\<close> (lines 253-262). \<^verbatim>\<open>camera || this._camera\<close> is stored before the
  check; \<^verbatim>\<open>await this._camera.start()\<close> rejects when the provider does.
\<close>

definition enableScan :: "camera option \<Rightarrow> scanner \<Rightarrow> error + scanner" where
  "enableScan cam w =
     (let w1 = w\<lparr>camera := (case cam of Some c \<Rightarrow> Some c | None \<Rightarrow> camera w)\<rparr> in
      case camera w1 of
        None \<Rightarrow> Inl (Error ''Camera is not defined.'')
      | Some c \<Rightarrow>
          (case cam_stream c of
             None \<Rightarrow> Inl (CameraFailure (cam_id c))
           | Some url \<Rightarrow>
               (let w2 = tell (CameraStart (cam_id c))
                           (w1\<lparr>streaming := insert (cam_id c) (streaming w1)\<rparr>);
                    w3 = tell (VideoSrc url) (w2\<lparr>videoSrc := Some url\<rparr>)
                in Inr (ActiveScan_start w3))))"

text \<open>\<^verbatim>\<open>_disableScan\<close> (lines 264-274); \<^verbatim>\<open>this._scan\<close> is always set.\<close>

definition disableScan :: "scanner \<Rightarrow> scanner" where
  "disableScan w =
     (let w1 = tell (VideoSrc []) (w\<lparr>videoSrc := Some []\<rparr>);
          w2 = ActiveScan_stop w1
      in case camera w2 of
           None \<Rightarrow> w2
         | Some c \<Rightarrow>
             tell (CameraStop (cam_id c)) (w2\<lparr>streaming := streaming w2 - {cam_id c}\<rparr>))"

subsection \<open>The state machine (lines 151-195)\<close>

text \<open>
  The transition table, the guard and the hooks are the configuration that lines 151-195
  pass to \<^verbatim>\<open>StateMachine.create\<close>, and are taken from there.

  Modelled from the spec: the engine that runs the table, the library fsm-as-promised,
  which is not part of the repository. As the design notes of the specification put it,
  the machine is a transition function on the enumerated states with hooks run in
  order: an event that the current state does not allow rejects; otherwise the leave
  hook of the old state runs, the state field is updated, the hooks of the new state
  run, and a hook that rejects makes the event reject. A transition is one step here:
  no other event interleaves with it, and what the machine is left in after a rejected
  event is not modelled.
\<close>

fun can :: "fsm_event \<Rightarrow> fsm_state \<Rightarrow> bool" where
  "can EvStart s = (s = Stopped)"
| "can EvStop s = (s = Started \<or> s = Active \<or> s = Inactive)"
| "can EvActivate s = (s = Started \<or> s = Inactive)"
| "can EvDeactivate s = (s = Started \<or> s = Active)"

definition goto :: "fsm_state \<Rightarrow> scanner \<Rightarrow> scanner" where
  "goto st w = w\<lparr>current := st, history := history w @ [st]\<rparr>"

text \<open>
  The guard of \<^verbatim>\<open>activate\<close> (lines 168-174) is written
  \<^verbatim>\<open>condition: function (options) { ... this.backgroundScan ... }\<close>: an ordinary function,
  whose \<^verbatim>\<open>this\<close> is the receiver the library calls it on, the machine object
  \<^verbatim>\<open>this._fsm\<close> that \<^verbatim>\<open>StateMachine.create\<close> built. The Scanner is never handed to the
  library, and nothing assigns a \<^verbatim>\<open>backgroundScan\<close> property on the machine object, so the
  read gives \<^verbatim>\<open>undefined\<close>. (The hooks at lines 183-193 and the visibility handler at
  lines 197-209 are arrow functions: their \<^verbatim>\<open>this\<close> is the Scanner.)
\<close>

definition fsm_backgroundScan :: "scanner \<Rightarrow> jsval" where
  "fsm_backgroundScan w = JUndefined"

definition condition :: "scanner \<Rightarrow> fsm_state" where
  "condition w =
     (if page w = Visible then Active
      else if truthy (fsm_backgroundScan w) then Active
      else Inactive)"

text \<open>The hooks \<^verbatim>\<open>onenteractive\<close> (lines 183-186) and \<^verbatim>\<open>onleaveactive\<close> (lines 187-190).\<close>

definition onenteractive :: "camera option \<Rightarrow> scanner \<Rightarrow> error + scanner" where
  "onenteractive cam w =
     (case enableScan cam w of
        Inl e \<Rightarrow> Inl e
      | Inr w1 \<Rightarrow> Inr (tell (Emit ActiveEvent) w1))"

definition onleaveactive :: "scanner \<Rightarrow> scanner" where
  "onleaveactive w = tell (Emit InactiveEvent) (disableScan w)"

text \<open>The four events of the table (lines 153-181).\<close>

definition fsm_activate :: "camera option \<Rightarrow> scanner \<Rightarrow> error + scanner" where
  "fsm_activate cam w =
     (if can EvActivate (current w) then
        (if condition w = Active then onenteractive cam (goto Active w)
         else Inr (goto (condition w) w))
      else Inl (FsmError EvActivate (current w)))"

definition fsm_deactivate :: "scanner \<Rightarrow> error + scanner" where
  "fsm_deactivate w =
     (if can EvDeactivate (current w) then
        Inr (goto Inactive (if current w = Active then onleaveactive w else w))
      else Inl (FsmError EvDeactivate (current w)))"

definition fsm_stop :: "scanner \<Rightarrow> error + scanner" where
  "fsm_stop w =
     (if can EvStop (current w) then
        Inr (goto Stopped (if current w = Active then onleaveactive w else w))
      else Inl (FsmError EvStop (current w)))"

text \<open>\<^verbatim>\<open>onenteredstarted\<close> (lines 191-193) fires \<^verbatim>\<open>activate\<close> with the argument of
  \<^verbatim>\<open>start\<close>.\<close>

definition onenteredstarted :: "camera option \<Rightarrow> scanner \<Rightarrow> error + scanner" where
  "onenteredstarted cam w = fsm_activate cam w"

definition fsm_start :: "camera option \<Rightarrow> scanner \<Rightarrow> error + scanner" where
  "fsm_start cam w =
     (if can EvStart (current w) then onenteredstarted cam (goto Started w)
      else Inl (FsmError EvStart (current w)))"

text \<open>\<^verbatim>\<open>Scanner.start\<close> (lines 214-221) and \<^verbatim>\<open>Scanner.stop\<close> (lines 223-227).\<close>

definition Scanner_start :: "camera option \<Rightarrow> scanner \<Rightarrow> error + scanner" where
  "Scanner_start cam w =
     (if can EvStart (current w) then fsm_start cam w
      else (case fsm_stop w of
              Inl e \<Rightarrow> Inl e
            | Inr w1 \<Rightarrow> fsm_start cam w1))"

definition Scanner_stop :: "scanner \<Rightarrow> error + scanner" where
  "Scanner_stop w = (if can EvStop (current w) then fsm_stop w else Inr w)"

text \<open>
  The visibility handler (lines 197-209): the part that runs at once when the page is
  no longer visible, and the task it defers when the page becomes visible.
\<close>

definition on_hidden :: "visibility \<Rightarrow> scanner \<Rightarrow> error + scanner" where
  "on_hidden vis w0 =
     (let w = w0\<lparr>page := vis\<rparr> in
      if backgroundScan w then Inr w
      else if can EvDeactivate (current w) then fsm_deactivate w
      else Inr w)"

definition on_visible_task :: "scanner \<Rightarrow> error + scanner" where
  "on_visible_task w =
     (if can EvActivate (current w) then fsm_activate None w else Inr w)"

text \<open>
  The resource invariant of the data model: outside \<open>Active\<close> no camera streams and
  the scan loop is stopped; in \<open>Active\<close> the stored camera is the one that streams.
\<close>

definition released :: "scanner \<Rightarrow> bool" where
  "released w = (if streaming w = {} then (if active (scan w) then False else True) else False)"

definition resources_ok :: "scanner \<Rightarrow> bool" where
  "resources_ok w =
     (if current w = Active then
        (case camera w of None \<Rightarrow> False | Some c \<Rightarrow> streaming w = {cam_id c})
      else released w)"

section \<open>A concrete session\<close>

text \<open>
  The scenario of the specification: \<^verbatim>\<open>scanPeriod = 3\<close>, \<^verbatim>\<open>refractoryPeriod = 100\<close>, a
  camera that delivers a stream, and frames on which the decoder reads \<^verbatim>\<open>"X"\<close>, reads
  the empty string, or has no metadata yet.
\<close>

definition demo_opts :: opts where
  "demo_opts =
     \<lparr>opt_video = None, opt_mirror = None, opt_backgroundScan = None,
      opt_captureImage = None, opt_scanPeriod = Some 3, opt_refractoryPeriod = Some 100\<rparr>"

definition demo_camera :: camera where
  "demo_camera = \<lparr>cam_id = 1, cam_stream = Some ''blob:1''\<rparr>"

definition frame_X :: frame where
  "frame_X =
     \<lparr>videoWidth = 640, videoHeight = 480, resized = 4096, decodeStatus = 0,
      decodeChunks = [(0, ''X'')]\<rparr>"

definition frame_Y :: frame where
  "frame_Y =
     \<lparr>videoWidth = 640, videoHeight = 480, resized = 4096, decodeStatus = 0,
      decodeChunks = [(0, ''Y'')]\<rparr>"

definition frame_empty :: frame where
  "frame_empty =
     \<lparr>videoWidth = 640, videoHeight = 480, resized = 4096, decodeStatus = 0,
      decodeChunks = [(0, [])]\<rparr>"

definition frame_blank :: frame where
  "frame_blank =
     \<lparr>videoWidth = 0, videoHeight = 0, resized = 4096, decodeStatus = 0, decodeChunks = []\<rparr>"

text \<open>The scanner as constructed on a visible page, and after \<^verbatim>\<open>start(camera)\<close>.\<close>

definition demo_new :: scanner where
  "demo_new = projr (new_Scanner demo_opts Visible)"

definition demo_background_opts :: opts where
  "demo_background_opts = demo_opts\<lparr>opt_backgroundScan := Some True\<rparr>"

definition demo_hidden :: scanner where
  "demo_hidden = projr (new_Scanner demo_background_opts Hidden)"

definition demo_started :: scanner where
  "demo_started = projr (Scanner_start (Some demo_camera) demo_new)"

text \<open>The started scanner five ticks later: the buffer is allocated, nothing is decoded
  yet, and the next tick is a third one.\<close>

definition demo_armed :: scanner where
  "demo_armed =
     run [Frame frame_X, Frame frame_X, Frame frame_X, Frame frame_blank, Frame frame_blank]
       demo_started"




section \<open>Facts about one tick\<close>

lemma scan_tell [simp]: "scan (tell e w) = scan w"
  by (simp add: tell_def)

lemma trace_tell [simp]: "trace (tell e w) = trace w @ [e]"
  by (simp add: tell_def)

lemma analyze_scan [simp]: "scan (snd (analyze f w)) = scan w"
  by (simp add: analyze_def Let_def split: jsval.splits)

lemma analyze_counts:
  "analyze_calls (snd (analyze f w)) = Suc (analyze_calls w)"
  by (simp add: analyze_def analyze_calls_def Let_def split: jsval.splits)

lemma suppress_keeps:
  "active (scan (suppress an w)) = active (scan w)"
  "scanPeriod (scan (suppress an w)) = scanPeriod (scan w)"
  "frameCount (scan (suppress an w)) = frameCount (scan w)"
  "refractoryPeriod (scan (suppress an w)) = refractoryPeriod (scan w)"
  "captureImage (scan (suppress an w)) = captureImage (scan w)"
  "trace (suppress an w) = trace w"
  by (simp_all add: suppress_def split: prod.splits jsval.splits)

lemma elapse_keeps:
  "active (scan (elapse dt w)) = active (scan w)"
  "scanPeriod (scan (elapse dt w)) = scanPeriod (scan w)"
  "frameCount (scan (elapse dt w)) = frameCount (scan w)"
  "refractoryPeriod (scan (elapse dt w)) = refractoryPeriod (scan w)"
  "captureImage (scan (elapse dt w)) = captureImage (scan w)"
  by (simp_all add: elapse_def deliver_def expire_def split: option.splits)

lemma elapse_analyze_calls: "analyze_calls (elapse dt w) = analyze_calls w"
proof -
  have "count_list (map (\<lambda>(text, img). Emit (Scan text img)) xs) AnalyzeCall = 0" for xs
    by (induction xs) auto
  then show ?thesis
    by (simp add: elapse_def deliver_def expire_def analyze_calls_def split: option.splits)
qed

lemma tick_keeps:
  "active (scan (ActiveScan_scan f w)) = active (scan w)"
  "scanPeriod (scan (ActiveScan_scan f w)) = scanPeriod (scan w)"
  "refractoryPeriod (scan (ActiveScan_scan f w)) = refractoryPeriod (scan w)"
  "captureImage (scan (ActiveScan_scan f w)) = captureImage (scan w)"
proof -
  obtain r w2 where a: "analyze f (tell RequestFrame w\<lparr>scan := (scan w)\<lparr>frameCount := 0\<rparr>\<rparr>) = (r, w2)"
    by (cases "analyze f (tell RequestFrame w\<lparr>scan := (scan w)\<lparr>frameCount := 0\<rparr>\<rparr>)")
  have s: "scan w2 = (scan w)\<lparr>frameCount := 0\<rparr>"
    using analyze_scan [of f "tell RequestFrame w\<lparr>scan := (scan w)\<lparr>frameCount := 0\<rparr>\<rparr>"] a by simp
  show "active (scan (ActiveScan_scan f w)) = active (scan w)"
    "scanPeriod (scan (ActiveScan_scan f w)) = scanPeriod (scan w)"
    "refractoryPeriod (scan (ActiveScan_scan f w)) = refractoryPeriod (scan w)"
    "captureImage (scan (ActiveScan_scan f w)) = captureImage (scan w)"
    using a s by (auto simp add: ActiveScan_scan_def Let_def suppress_keeps split: option.splits)
qed

lemma tick_count:
  assumes "active (scan w)" "scanPeriod (scan w) = int N" "frameCount (scan w) = int c" "c < N"
  shows "frameCount (scan (ActiveScan_scan f w)) = int ((c + 1) mod N)"
    and "analyze_calls (ActiveScan_scan f w) = analyze_calls w + (c + 1) div N"
proof -
  let ?w1 = "tell RequestFrame w\<lparr>scan := (scan w)\<lparr>frameCount := 0\<rparr>\<rparr>"
  obtain r w2 where a: "analyze f ?w1 = (r, w2)"
    by (cases "analyze f ?w1")
  have s: "scan w2 = (scan w)\<lparr>frameCount := 0\<rparr>"
    using analyze_scan [of f ?w1] a by simp
  have n: "analyze_calls w2 = Suc (analyze_calls w)"
    using analyze_counts [of f ?w1] a by (simp add: analyze_calls_def)
  show "frameCount (scan (ActiveScan_scan f w)) = int ((c + 1) mod N)"
  proof (cases "c + 1 = N")
    case True
    then show ?thesis using assms a s
      by (auto simp add: ActiveScan_scan_def Let_def suppress_keeps split: option.splits)
  next
    case False
    then have "(c + 1) mod N = c + 1" using assms by simp
    then show ?thesis using assms False
      by (auto simp add: ActiveScan_scan_def Let_def)
  qed
  show "analyze_calls (ActiveScan_scan f w) = analyze_calls w + (c + 1) div N"
  proof (cases "c + 1 = N")
    case True
    then show ?thesis using assms a s n
      by (auto simp add: ActiveScan_scan_def Let_def suppress_keeps analyze_calls_def split: option.splits)
  next
    case False
    then have "(c + 1) div N = 0" using assms by simp
    then show ?thesis using assms False
      by (auto simp add: ActiveScan_scan_def Let_def analyze_calls_def)
  qed
qed

lemma div_carry: "(a::nat) div N + (a mod N + b) div N = (a + b) div N"
proof (cases "N = 0")
  case True
  then show ?thesis by simp
next
  case False
  have e: "a + b = a mod N + b + (a div N) * N"
    using div_mult_mod_eq [of a N] by linarith
  have "(a mod N + b + (a div N) * N) div N = a div N + (a mod N + b) div N"
    using False by (rule div_mult_self1)
  then show ?thesis
    by (simp only: e [symmetric])
qed

lemma mod_carry: "(a mod N + b) mod N = (a + b) mod (N::nat)"
  by (simp add: mod_add_left_eq)

lemma run_Cons: "run (t # ts) w = run ts (step w t)"
  by (simp add: run_def)

lemma frames_Cons: "frames (t # ts) = (if is_frame t then 1 else 0) + frames ts"
  by (simp add: frames_def)

lemmas session_defs =
  demo_started_def demo_new_def demo_opts_def demo_camera_def new_Scanner_def configureVideo_def
  new_ActiveScan_def new_Analyzer_def Scanner_start_def fsm_start_def fsm_stop_def
  onenteredstarted_def fsm_activate_def condition_def goto_def onenteractive_def enableScan_def
  ActiveScan_start_def tell_def

section \<open>The frame counter\<close>

text \<open>
  Claim C3. In a running scan loop whose period is a fixed positive \<open>N\<close> and whose
  frame counter is below \<open>N\<close> (it is 0 after construction and stays below \<open>N\<close>), any
  sequence of turns with \<open>k\<close> frame ticks among them invokes \<^verbatim>\<open>analyze\<close> exactly
  \<open>(c + k) div N\<close> times, \<open>c\<close> being the counter at the start: once when the counter
  reaches \<open>N\<close>, where it is reset to 0, and never in between.
\<close>

theorem analyze_once_per_scanPeriod:
  assumes "active (scan w)" and "scanPeriod (scan w) = int N" and "0 < N"
    and "frameCount (scan w) = int c" and "c < N"
  shows "analyze_calls (run ts w) = analyze_calls w + (c + frames ts) div N \<and>
         frameCount (scan (run ts w)) = int ((c + frames ts) mod N)"
  using assms
proof (induction ts arbitrary: w c)
  case Nil
  then show ?case by (simp add: run_def frames_def)
next
  case (Cons t ts)
  show ?case
  proof (cases t)
    case (Frame f)
    let ?w = "ActiveScan_scan f w" and ?c = "(c + 1) mod N"
    have k: "active (scan ?w)" "scanPeriod (scan ?w) = int N"
      using Cons.prems by (simp_all add: tick_keeps)
    have c: "frameCount (scan ?w) = int ?c" "analyze_calls ?w = analyze_calls w + (c + 1) div N"
      using tick_count [of w N c f] Cons.prems by simp_all
    have lt: "?c < N" using Cons.prems by simp
    have ih: "analyze_calls (run ts ?w) = analyze_calls ?w + (?c + frames ts) div N"
      "frameCount (scan (run ts ?w)) = int ((?c + frames ts) mod N)"
      using Cons.IH [OF k(1) k(2) Cons.prems(3) c(1) lt] by simp_all
    have "analyze_calls (run ts ?w) = analyze_calls w + (c + 1 + frames ts) div N"
      using ih(1) c(2) div_carry [of "c + 1" N "frames ts"] by simp
    moreover have "frameCount (scan (run ts ?w)) = int ((c + 1 + frames ts) mod N)"
      using ih(2) mod_carry [of "c + 1" N "frames ts"] by simp
    ultimately show ?thesis
      using Frame by (simp add: run_Cons frames_Cons add.commute add.left_commute)
  next
    case (Elapse dt)
    let ?w = "elapse dt w"
    have k: "active (scan ?w)" "scanPeriod (scan ?w) = int N" "frameCount (scan ?w) = int c"
      using Cons.prems by (simp_all add: elapse_keeps)
    have "analyze_calls (run ts ?w) = analyze_calls ?w + (c + frames ts) div N \<and>
          frameCount (scan (run ts ?w)) = int ((c + frames ts) mod N)"
      using Cons.IH [OF k(1) k(2) Cons.prems(3) k(3) Cons.prems(5)] .
    then show ?thesis
      using Elapse by (simp add: run_Cons frames_Cons elapse_analyze_calls)
  qed
qed

theorem analyze_once_per_scanPeriod_witness:
  "analyze_calls (run [Frame frame_X, Frame frame_blank, Elapse 16, Frame frame_X, Frame frame_X,
        Frame frame_X, Elapse 5, Frame frame_X, Frame frame_X] demo_started)
     = analyze_calls demo_started + 2 \<and>
   frameCount (scan (run [Frame frame_X, Frame frame_blank, Elapse 16, Frame frame_X, Frame frame_X,
        Frame frame_X, Elapse 5, Frame frame_X, Frame frame_X] demo_started)) = 1"
  using analyze_once_per_scanPeriod [of demo_started 3 0
      "[Frame frame_X, Frame frame_blank, Elapse 16, Frame frame_X, Frame frame_X,
        Frame frame_X, Elapse 5, Frame frame_X, Frame frame_X]"]
  by (simp add: session_defs Let_def frames_def)

lemma scans_tell:
  "scans (tell e w) = scans w @ scan_of e" if "deferred w = []"
  using that by (simp add: scans_def tell_def)

lemma scans_tell_quiet [simp]:
  "scan_of e = [] \<Longrightarrow> scans (tell e w) = scans w"
  by (simp add: scans_def tell_def)

lemma scans_scan_update [simp]: "scans (w\<lparr>scan := x\<rparr>) = scans w"
  by (simp add: scans_def)

lemma analyze_scans [simp]: "scans (snd (analyze f w)) = scans w"
  by (simp add: analyze_def Let_def scans_def tell_def split: jsval.splits)

lemma analyze_clock [simp]: "clock (snd (analyze f w)) = clock w"
  by (simp add: analyze_def Let_def tell_def split: jsval.splits)

lemma analyze_fst_scan [simp]: "fst (analyze f (w\<lparr>scan := x\<rparr>)) = fst (analyze f w)"
  by (simp add: analyze_def Let_def tell_def split: jsval.splits)

lemma analyze_fst_tell [simp]: "fst (analyze f (tell e w)) = fst (analyze f w)"
  by (simp add: analyze_def Let_def tell_def split: jsval.splits)

lemma analyze_result_string:
  "fst (analyze f w) = Some (v, cw, ch) \<Longrightarrow> \<exists>r. v = JStr r"
  by (auto simp add: analyze_def Let_def tell_def split: if_splits jsval.splits) metis


lemma suppress_empty [simp]: "suppress (JStr [], c) w = w"
  by (simp add: suppress_def split: prod.splits)

lemma suppress_scans:
  "scans (suppress an w) = scans w \<or>
   (\<exists>text img. text \<noteq> [] \<and> scans (suppress an w) = scans w @ [(text, img)])"
  by (auto simp add: suppress_def scans_def split: prod.splits jsval.splits)

lemma tick_scans:
  "scans (ActiveScan_scan f w) = scans w \<or>
   (\<exists>text img. text \<noteq> [] \<and> scans (ActiveScan_scan f w) = scans w @ [(text, img)])"
proof -
  let ?w1 = "tell RequestFrame w\<lparr>scan := (scan w)\<lparr>frameCount := 0\<rparr>\<rparr>"
  obtain r w2 where a: "analyze f ?w1 = (r, w2)"
    by (cases "analyze f ?w1")
  have s: "scans w2 = scans w"
    using analyze_scans [of f ?w1] a by simp
  show ?thesis
  proof (cases r)
    case None
    then show ?thesis using a s by (simp add: ActiveScan_scan_def Let_def)
  next
    case (Some an)
    then show ?thesis using a s suppress_scans [of an w2]
      by (auto simp add: ActiveScan_scan_def Let_def)
  qed
qed

lemma elapse_scans [simp]: "scans (elapse dt w) = scans w"
proof -
  have "concat (map scan_of (map (\<lambda>(text, img). Emit (Scan text img)) xs)) = xs" for xs
    by (induction xs) auto
  then show ?thesis
    by (simp add: elapse_def deliver_def expire_def scans_def split: option.splits)
qed

lemma run_no_empty_scan:
  "[] \<notin> fst ` set (scans w) \<Longrightarrow> [] \<notin> fst ` set (scans (run ts w))"
proof (induction ts arbitrary: w)
  case Nil
  then show ?case by (simp add: run_def)
next
  case (Cons t ts)
  have "[] \<notin> fst ` set (scans (step w t))"
  proof (cases t)
    case (Frame f)
    then show ?thesis using Cons.prems tick_scans [of f w] by auto
  next
    case (Elapse dt)
    then show ?thesis using Cons.prems by simp
  qed
  then show ?case using Cons.IH by (simp add: run_Cons)
qed

lemmas tick_defs =
  run_def ActiveScan_scan_def analyze_def suppress_def timer_delay_def elapse_def expire_def
  deliver_def
  frame_X_def frame_Y_def frame_empty_def frame_blank_def centred_def decodeCallback_def

lemma demo_started_eq:
  "demo_started =
    \<lparr>backgroundScan = False,
     camera = Some \<lparr>cam_id = 1, cam_stream = Some ''blob:1''\<rparr>,
     videoSrc = Some ''blob:1'',
     scan = \<lparr>scanPeriod = 3, captureImage = False, refractoryPeriod = 100,
         frameCount = 0, active = True, lastResult = JUndefined,
         refractoryTimeout = None\<rparr>,
     analyzer = \<lparr>imageBuffer = None, sensorLeft = None, sensorTop = None,
         sensorWidth = None, sensorHeight = None, canvasWidth = 300,
         canvasHeight = 150, canvasContext = False\<rparr>,
     current = Active, page = Visible, clock = 0,
     zxDecodeResult = JUndefined, deferred = [], streaming = {1},
     history = [Stopped, Started, Active],
     trace = [Emit InactiveEvent, CameraStart 1, VideoSrc ''blob:1'', RequestFrame,
       Emit ActiveEvent]\<rparr>"
  by (simp add: session_defs Let_def)

lemma demo_armed_eq:
  "demo_armed =
    \<lparr>backgroundScan = False,
     camera = Some \<lparr>cam_id = 1, cam_stream = Some ''blob:1''\<rparr>,
     videoSrc = Some ''blob:1'',
     scan = \<lparr>scanPeriod = 3, captureImage = False, refractoryPeriod = 100,
         frameCount = 2, active = True, lastResult = JUndefined,
         refractoryTimeout = None\<rparr>,
     analyzer = \<lparr>imageBuffer = Some 4096, sensorLeft = Some 0, sensorTop = Some 0,
         sensorWidth = Some 640, sensorHeight = Some 480, canvasWidth = 640,
         canvasHeight = 480, canvasContext = True\<rparr>,
     current = Active, page = Visible, clock = 0,
     zxDecodeResult = JUndefined, deferred = [], streaming = {1},
     history = [Stopped, Started, Active],
     trace = [Emit InactiveEvent, CameraStart 1, VideoSrc ''blob:1'', RequestFrame,
       Emit ActiveEvent, RequestFrame, RequestFrame, RequestFrame, AnalyzeCall, Resize 640 480,
       RequestFrame, RequestFrame]\<rparr>"
  by (simp add: demo_armed_def demo_started_eq tick_defs tell_def Let_def)

section \<open>The analyzer's buffer\<close>

text \<open>
  Claim C7. A call of \<^verbatim>\<open>analyze\<close> while the video reports no pixel width returns none
  and leaves the analyzer as it was: no buffer is allocated. The first call with a
  width and no buffer measures, allocates through \<^verbatim>\<open>ZXing._resize\<close> and returns none
  without calling the decode primitive. The decode primitive is called exactly by the
  calls that find a width and a buffer allocated by an earlier call.
\<close>

theorem analyze_lazy_buffer:
  "(videoWidth f = 0 \<longrightarrow>
      fst (analyze f w) = None \<and> analyzer (snd (analyze f w)) = analyzer w \<and>
      trace (snd (analyze f w)) = trace w @ [AnalyzeCall]) \<and>
   (videoWidth f \<noteq> 0 \<and> no_buffer (imageBuffer (analyzer w)) \<longrightarrow>
      fst (analyze f w) = None \<and>
      imageBuffer (analyzer (snd (analyze f w))) = Some (resized f) \<and>
      sensorWidth (analyzer (snd (analyze f w))) = Some (videoWidth f) \<and>
      sensorHeight (analyzer (snd (analyze f w))) = Some (videoHeight f) \<and>
      zxDecodeResult (snd (analyze f w)) = zxDecodeResult w \<and>
      trace (snd (analyze f w)) = trace w @ [AnalyzeCall, Resize (videoWidth f) (videoHeight f)]) \<and>
   (DecodeQr \<in> set (drop (length (trace w)) (trace (snd (analyze f w)))) \<longleftrightarrow>
      (videoWidth f \<noteq> 0 \<and> \<not> no_buffer (imageBuffer (analyzer w))))"
  by (simp add: analyze_def Let_def tell_def split: jsval.splits)

theorem analyze_lazy_buffer_witness:
  "fst (analyze frame_blank demo_started) = None \<and>
   analyzer (snd (analyze frame_blank demo_started)) = analyzer demo_started \<and>
   fst (analyze frame_X demo_started) = None \<and>
   imageBuffer (analyzer (snd (analyze frame_X demo_started))) = Some 4096 \<and>
   trace (snd (analyze frame_X demo_started)) = trace demo_started @ [AnalyzeCall, Resize 640 480] \<and>
   DecodeQr \<in> set (drop (length (trace demo_armed)) (trace (snd (analyze frame_X demo_armed))))"
  using analyze_lazy_buffer [of frame_blank demo_started]
    analyze_lazy_buffer [of frame_X demo_started]
    analyze_lazy_buffer [of frame_X demo_armed]
  by (simp add: demo_started_eq demo_armed_eq frame_X_def frame_blank_def)

section \<open>Empty decode results\<close>

text \<open>
  Claim C9. When the decoder returns status 0 and the callback has accumulated the empty
  string, \<^verbatim>\<open>analyze\<close> returns a result object whose text is empty; the tick drops it
  at the same test that drops none, ending in the state the analysis left, with the
  last result, the expiry timer and the accepted scan events unchanged. No run of the
  loop ever adds a scan event with empty text.
\<close>

theorem empty_text_never_emitted:
  assumes "videoWidth f \<noteq> 0" and "\<not> no_buffer (imageBuffer (analyzer w))"
    and "decodeStatus f = 0"
    and "foldl decodeCallback (zxDecodeResult w) (decodeChunks f) = JStr []"
    and "[] \<notin> fst ` set (scans w)"
  shows "fst (analyze f w) = Some (JStr [], canvasWidth (analyzer w), canvasHeight (analyzer w)) \<and>
    (\<forall>w'. suppress (JStr [], canvasWidth (analyzer w), canvasHeight (analyzer w)) w' = w') \<and>
    (active (scan w) \<longrightarrow> frameCount (scan w) + 1 = scanPeriod (scan w) \<longrightarrow>
       ActiveScan_scan f w =
         snd (analyze f ((tell RequestFrame w)\<lparr>scan := (scan w)\<lparr>frameCount := 0\<rparr>\<rparr>))) \<and>
    scans (ActiveScan_scan f w) = scans w \<and>
    lastResult (scan (ActiveScan_scan f w)) = lastResult (scan w) \<and>
    refractoryTimeout (scan (ActiveScan_scan f w)) = refractoryTimeout (scan w) \<and>
    [] \<notin> fst ` set (scans (run ts w))"
proof -
  let ?w1 = "(tell RequestFrame w)\<lparr>scan := (scan w)\<lparr>frameCount := 0\<rparr>\<rparr>"
  have a: "fst (analyze f w) = Some (JStr [], canvasWidth (analyzer w), canvasHeight (analyzer w))"
    using assms(1-4) by (simp add: analyze_def Let_def tell_def)
  then have a1: "fst (analyze f ?w1) = Some (JStr [], canvasWidth (analyzer w), canvasHeight (analyzer w))"
    by simp
  obtain w2 where w2: "analyze f ?w1 = (Some (JStr [], canvasWidth (analyzer w), canvasHeight (analyzer w)), w2)"
    using a1 by (cases "analyze f ?w1") simp
  have s: "scan w2 = (scan w)\<lparr>frameCount := 0\<rparr>" "scans w2 = scans w"
    using analyze_scan [of f ?w1] analyze_scans [of f ?w1] w2 by simp_all
  have t: "active (scan w) \<Longrightarrow> frameCount (scan w) + 1 = scanPeriod (scan w) \<Longrightarrow>
      ActiveScan_scan f w = w2"
    using w2 by (simp add: ActiveScan_scan_def Let_def)
  have "scans (ActiveScan_scan f w) = scans w \<and>
    lastResult (scan (ActiveScan_scan f w)) = lastResult (scan w) \<and>
    refractoryTimeout (scan (ActiveScan_scan f w)) = refractoryTimeout (scan w)"
    using w2 s by (simp add: ActiveScan_scan_def Let_def)
  moreover have "[] \<notin> fst ` set (scans (run ts w))"
    using assms(5) by (rule run_no_empty_scan)
  ultimately show ?thesis
    using a t w2 by simp
qed

theorem empty_text_never_emitted_witness:
  "fst (analyze frame_empty demo_armed) = Some (JStr [], 640, 480) \<and>
   ActiveScan_scan frame_empty demo_armed =
     snd (analyze frame_empty ((tell RequestFrame demo_armed)\<lparr>scan := (scan demo_armed)\<lparr>frameCount := 0\<rparr>\<rparr>)) \<and>
   scans (ActiveScan_scan frame_empty demo_armed) = [] \<and>
   [] \<notin> fst ` set (scans (run [Frame frame_empty, Elapse 0, Frame frame_X, Frame frame_X, Frame frame_X] demo_armed))"
  using empty_text_never_emitted [of frame_empty demo_armed
      "[Frame frame_empty, Elapse 0, Frame frame_X, Frame frame_X, Frame frame_X]"]
  by (simp add: demo_armed_eq tick_defs tell_def Let_def scans_def)

section \<open>Facts about the state machine\<close>

text \<open>What the operations leave of the scan loop's fields.\<close>

lemma goto_simps [simp]:
  "scan (goto st w) = scan w" "current (goto st w) = st" "camera (goto st w) = camera w"
  "page (goto st w) = page w" "streaming (goto st w) = streaming w"
  "trace (goto st w) = trace w" "history (goto st w) = history w @ [st]"
  "backgroundScan (goto st w) = backgroundScan w"
  by (simp_all add: goto_def)

lemma disableScan_simps [simp]:
  "scan (disableScan w) = (scan w)\<lparr>active := False\<rparr>"
  "current (disableScan w) = current w" "camera (disableScan w) = camera w"
  "page (disableScan w) = page w" "history (disableScan w) = history w"
  "backgroundScan (disableScan w) = backgroundScan w"
  by (simp_all add: disableScan_def ActiveScan_stop_def tell_def Let_def split: option.splits)

lemma onleaveactive_simps [simp]:
  "scan (onleaveactive w) = (scan w)\<lparr>active := False\<rparr>"
  "current (onleaveactive w) = current w" "camera (onleaveactive w) = camera w"
  "page (onleaveactive w) = page w" "history (onleaveactive w) = history w"
  "backgroundScan (onleaveactive w) = backgroundScan w"
  by (simp_all add: onleaveactive_def tell_def)

lemma enableScan_Inr:
  assumes "enableScan cam w = Inr w'"
  shows "scan w' = (scan w)\<lparr>active := True\<rparr>" "current w' = current w" "page w' = page w"
    "history w' = history w" "backgroundScan w' = backgroundScan w"
    "\<exists>c. camera w' = Some c \<and> streaming w' = insert (cam_id c) (streaming w)"
  using assms
  by (auto simp add: enableScan_def ActiveScan_start_def tell_def Let_def split: option.splits)

lemma onenteractive_Inr:
  assumes "onenteractive cam w = Inr w'"
  shows "scan w' = (scan w)\<lparr>active := True\<rparr>" "current w' = current w" "page w' = page w"
    "history w' = history w" "backgroundScan w' = backgroundScan w"
    "\<exists>c. camera w' = Some c \<and> streaming w' = insert (cam_id c) (streaming w)"
proof -
  obtain w1 where e: "enableScan cam w = Inr w1" and w': "w' = tell (Emit ActiveEvent) w1"
    using assms by (auto simp add: onenteractive_def split: sum.splits)
  show "scan w' = (scan w)\<lparr>active := True\<rparr>" "current w' = current w" "page w' = page w"
    "history w' = history w" "backgroundScan w' = backgroundScan w"
    "\<exists>c. camera w' = Some c \<and> streaming w' = insert (cam_id c) (streaming w)"
    using enableScan_Inr [OF e] w' by (simp_all add: tell_def)
qed

lemma condition_cases: "condition w = (if page w = Visible then Active else Inactive)"
  by (simp add: condition_def fsm_backgroundScan_def)

lemma fsm_activate_Inr:
  assumes "fsm_activate cam w = Inr w'"
  shows "current w' = condition w" "page w' = page w" "backgroundScan w' = backgroundScan w"
    "history w' = history w @ [condition w]"
    "scan w' = (if condition w = Active then (scan w)\<lparr>active := True\<rparr> else scan w)"
proof -
  have c: "can EvActivate (current w)"
    using assms by (auto simp add: fsm_activate_def split: if_splits)
  have "current w' = condition w \<and> page w' = page w \<and> backgroundScan w' = backgroundScan w \<and>
    history w' = history w @ [condition w] \<and>
    scan w' = (if condition w = Active then (scan w)\<lparr>active := True\<rparr> else scan w)"
  proof (cases "condition w = Active")
    case True
    then have e: "onenteractive cam (goto Active w) = Inr w'"
      using assms c by (simp add: fsm_activate_def)
    show ?thesis
      using onenteractive_Inr [OF e] True by simp
  next
    case False
    then have "w' = goto (condition w) w"
      using assms c by (simp add: fsm_activate_def)
    then show ?thesis
      using False by simp
  qed
  then show "current w' = condition w" "page w' = page w" "backgroundScan w' = backgroundScan w"
    "history w' = history w @ [condition w]"
    "scan w' = (if condition w = Active then (scan w)\<lparr>active := True\<rparr> else scan w)"
    by simp_all
qed

lemma fsm_stop_Inr:
  assumes "current w \<noteq> Stopped"
  shows "\<exists>w1. fsm_stop w = Inr w1 \<and> current w1 = Stopped \<and> page w1 = page w \<and>
     camera w1 = camera w \<and> backgroundScan w1 = backgroundScan w \<and>
     history w1 = history w @ [Stopped] \<and>
     scan w1 = (if current w = Active then (scan w)\<lparr>active := False\<rparr> else scan w)"
  using assms by (cases "current w") (simp_all add: fsm_stop_def)

lemma fsm_start_Inr:
  assumes "fsm_start cam w = Inr w'"
  shows "current w' = condition w" "page w' = page w" "backgroundScan w' = backgroundScan w"
    "history w' = history w @ [Started, condition w]"
    "scan w' = (if condition w = Active then (scan w)\<lparr>active := True\<rparr> else scan w)"
proof -
  have a: "fsm_activate cam (goto Started w) = Inr w'"
    using assms by (auto simp add: fsm_start_def onenteredstarted_def split: if_splits)
  have c: "condition (goto Started w) = condition w"
    by (simp add: condition_cases)
  show "current w' = condition w" "page w' = page w" "backgroundScan w' = backgroundScan w"
    "history w' = history w @ [Started, condition w]"
    "scan w' = (if condition w = Active then (scan w)\<lparr>active := True\<rparr> else scan w)"
    using fsm_activate_Inr [OF a] c by simp_all
qed

lemma Scanner_start_restart:
  assumes "current w \<noteq> Stopped" and "fsm_stop w = Inr w1"
  shows "Scanner_start cam w = fsm_start cam w1" "Scanner_start cam w1 = fsm_start cam w1"
proof -
  have "current w1 = Stopped"
    using fsm_stop_Inr [OF assms(1)] assms(2) by auto
  then show "Scanner_start cam w1 = fsm_start cam w1"
    by (simp add: Scanner_start_def)
  show "Scanner_start cam w = fsm_start cam w1"
    using assms by (simp add: Scanner_start_def)
qed

lemma fsm_start_working:
  assumes "current w = Stopped" and "cam_stream c = Some url"
  shows "\<exists>w'. fsm_start (Some c) w = Inr w'"
  using assms
  by (simp add: fsm_start_def onenteredstarted_def fsm_activate_def onenteractive_def
      enableScan_def Let_def goto_def)

section \<open>Restarting\<close>

text \<open>
  Claim C4. \<^verbatim>\<open>start(camera)\<close> on a scanner that is not stopped first fires \<^verbatim>\<open>stop\<close>,
  which succeeds and leaves the machine in \<open>Stopped\<close>, and then does what
  \<^verbatim>\<open>start(camera)\<close> does from that stopped state. When it resolves, the machine went
  through \<open>Stopped\<close> and \<open>Started\<close> and is \<open>Active\<close> or \<open>Inactive\<close> as the
  guard of \<^verbatim>\<open>activate\<close> decides, the state in which a start from any stopped scanner
  ends when the guard decides the same there; with a camera that delivers its stream it
  does resolve.
\<close>

theorem restart_as_fresh_start:
  assumes "current w \<noteq> Stopped"
  shows "\<exists>w1. fsm_stop w = Inr w1 \<and> current w1 = Stopped \<and>
      history w1 = history w @ [Stopped] \<and>
      Scanner_start cam w = Scanner_start cam w1 \<and>
      (\<forall>w'. Scanner_start cam w = Inr w' \<longrightarrow>
         (current w' = Active \<or> current w' = Inactive) \<and>
         current w' = condition w \<and>
         history w' = history w @ [Stopped, Started, current w'] \<and>
         (\<forall>w0 w0'. current w0 = Stopped \<longrightarrow> condition w0 = condition w \<longrightarrow>
            Scanner_start cam w0 = Inr w0' \<longrightarrow> current w0' = current w')) \<and>
      (\<forall>c url. cam = Some c \<longrightarrow> cam_stream c = Some url \<longrightarrow>
         (\<exists>w'. Scanner_start cam w = Inr w'))"
proof -
  obtain w1 where w1: "fsm_stop w = Inr w1" "current w1 = Stopped" "page w1 = page w"
    "history w1 = history w @ [Stopped]"
    using fsm_stop_Inr [OF assms] by auto
  have g: "condition w1 = condition w"
    using w1(3) by (simp only: condition_cases)
  have r: "Scanner_start cam w = fsm_start cam w1" "Scanner_start cam w1 = fsm_start cam w1"
    using Scanner_start_restart [OF assms w1(1)] by simp_all
  have a: "(current w' = Active \<or> current w' = Inactive) \<and>
         current w' = condition w \<and>
         history w' = history w @ [Stopped, Started, current w'] \<and>
         (\<forall>w0 w0'. current w0 = Stopped \<longrightarrow> condition w0 = condition w \<longrightarrow>
            Scanner_start cam w0 = Inr w0' \<longrightarrow> current w0' = current w')"
    if s: "Scanner_start cam w = Inr w'" for w'
  proof -
    have f: "fsm_start cam w1 = Inr w'" using s r by simp
    have c: "current w' = condition w"
      using fsm_start_Inr(1) [OF f] g by simp
    have c2: "current w' = Active \<or> current w' = Inactive"
      by (simp add: c condition_cases)
    have h: "history w' = history w @ [Stopped, Started, current w']"
      using fsm_start_Inr(1,4) [OF f] w1(4) by simp
    have o: "current w0' = current w'"
      if "current w0 = Stopped" "condition w0 = condition w" "Scanner_start cam w0 = Inr w0'"
      for w0 w0'
    proof -
      have "fsm_start cam w0 = Inr w0'" using that(1,3) by (simp add: Scanner_start_def)
      then have "current w0' = condition w0"
        by (rule fsm_start_Inr(1))
      then show ?thesis using that(2) c by simp
    qed
    from o have o': "\<forall>w0 w0'. current w0 = Stopped \<longrightarrow> condition w0 = condition w \<longrightarrow>
            Scanner_start cam w0 = Inr w0' \<longrightarrow> current w0' = current w'"
      by (intro allI impI)
    show ?thesis
      by (intro conjI) (rule c2, rule c, rule h, rule o')
  qed
  have b: "\<exists>w'. Scanner_start cam w = Inr w'" if "cam = Some c" "cam_stream c = Some url" for c url
    using fsm_start_working [OF w1(2) that(2)] r(1) that(1) by simp
  have r': "Scanner_start cam w = Scanner_start cam w1"
    using r by simp
  show ?thesis
  proof (rule exI [of _ w1], intro conjI allI impI)
    show "fsm_stop w = Inr w1" by (rule w1(1))
    show "current w1 = Stopped" by (rule w1(2))
    show "history w1 = history w @ [Stopped]" by (rule w1(4))
    show "Scanner_start cam w = Scanner_start cam w1" by (rule r')
  next
    fix w' assume s: "Scanner_start cam w = Inr w'"
    show "current w' = Active \<or> current w' = Inactive" using a [OF s] by (elim conjE)
    show "current w' = condition w" using a [OF s] by (elim conjE)
    show "history w' = history w @ [Stopped, Started, current w']" using a [OF s] by (elim conjE)
    fix w0 w0' assume "current w0 = Stopped" "condition w0 = condition w"
      "Scanner_start cam w0 = Inr w0'"
    then show "current w0' = current w'" using a [OF s] by (elim conjE) blast
  next
    fix c url assume "cam = Some c" "cam_stream c = Some url"
    then show "\<exists>w'. Scanner_start cam w = Inr w'" by (rule b)
  qed
qed

theorem restart_as_fresh_start_witness:
  "current demo_started \<noteq> Stopped \<and>
   (\<exists>w1 w'. fsm_stop demo_started = Inr w1 \<and> current w1 = Stopped \<and>
      Scanner_start (Some demo_camera) demo_started = Inr w' \<and>
      Scanner_start (Some demo_camera) w1 = Inr w' \<and>
      current w' = Active \<and>
      history w' = [Stopped, Started, Active, Stopped, Started, Active])"
proof -
  have h: "current demo_started \<noteq> Stopped"
    by (simp add: demo_started_eq)
  obtain w1 where w1: "fsm_stop demo_started = Inr w1" "current w1 = Stopped"
    "Scanner_start (Some demo_camera) demo_started = Scanner_start (Some demo_camera) w1"
    and a: "\<And>w'. Scanner_start (Some demo_camera) demo_started = Inr w' \<Longrightarrow>
         current w' = condition demo_started \<and>
         history w' = history demo_started @ [Stopped, Started, current w']"
    and b: "\<And>c url. Some demo_camera = Some c \<Longrightarrow> cam_stream c = Some url \<Longrightarrow>
         \<exists>w'. Scanner_start (Some demo_camera) demo_started = Inr w'"
    using restart_as_fresh_start [OF h, of "Some demo_camera"] by blast
  obtain w' where w': "Scanner_start (Some demo_camera) demo_started = Inr w'"
    using b [of demo_camera "''blob:1''"] by (auto simp add: demo_camera_def)
  have "current w' = Active" "history w' = [Stopped, Started, Active, Stopped, Started, Active]"
    using a [OF w'] by (simp_all add: demo_started_eq condition_cases)
  moreover have "Scanner_start (Some demo_camera) w1 = Inr w'"
    using w1(3) w' by simp
  ultimately show ?thesis
    using h w1(1,2) w' by blast
qed

lemma Scanner_stop_stopped: "current w = Stopped \<Longrightarrow> Scanner_stop w = Inr w"
  by (simp add: Scanner_stop_def)

lemma disableScan_streaming:
  "streaming (disableScan w) =
     (case camera w of None \<Rightarrow> streaming w | Some c \<Rightarrow> streaming w - {cam_id c})"
  by (simp add: disableScan_def ActiveScan_stop_def tell_def Let_def split: option.splits)

lemma released_goto [simp]: "released (goto st w) = released w"
  by (simp add: released_def)

lemma released_after_leave:
  assumes "camera w = Some c" and "streaming w = {cam_id c}"
  shows "released (onleaveactive w)"
  using assms by (simp add: released_def onleaveactive_def tell_def disableScan_streaming)

lemma fsm_stop_released:
  assumes "resources_ok w" and "current w \<noteq> Stopped"
  shows "\<exists>w1. fsm_stop w = Inr w1 \<and> current w1 = Stopped \<and> released w1"
proof (cases "current w = Active")
  case True
  then obtain c where c: "camera w = Some c" "streaming w = {cam_id c}"
    using assms(1) by (auto simp add: resources_ok_def split: option.splits)
  show ?thesis
    using True released_after_leave [OF c] by (simp add: fsm_stop_def)
next
  case False
  then have "released w" using assms(1) by (simp add: resources_ok_def)
  then show ?thesis
    using False assms(2) by (cases "current w") (simp_all add: fsm_stop_def)
qed

section \<open>Stopping\<close>

text \<open>
  Claim C5. From any state that satisfies the resource invariant, \<^verbatim>\<open>stop()\<close> resolves
  in state \<open>Stopped\<close> with no camera streaming and the scan loop stopped, and a
  second \<^verbatim>\<open>stop()\<close> resolves in that very state; \<^verbatim>\<open>stop()\<close> on a stopped scanner
  changes nothing and does not reject.
\<close>

theorem stop_idempotent:
  assumes "resources_ok w"
  shows "\<exists>w1. Scanner_stop w = Inr w1 \<and> Scanner_stop w1 = Inr w1 \<and>
     current w1 = Stopped \<and> released w1 \<and> (current w = Stopped \<longrightarrow> w1 = w)"
proof (cases "current w = Stopped")
  case True
  then have "released w" using assms by (simp add: resources_ok_def)
  then show ?thesis
    using True by (simp add: Scanner_stop_stopped)
next
  case False
  then obtain w1 where w1: "fsm_stop w = Inr w1" "current w1 = Stopped" "released w1"
    using fsm_stop_released [OF assms] by blast
  have "Scanner_stop w = Inr w1"
    using False w1(1) by (cases "current w") (simp_all add: Scanner_stop_def)
  then show ?thesis
    using False w1 by (simp add: Scanner_stop_stopped)
qed

theorem stop_idempotent_witness:
  "resources_ok demo_started \<and>
   (\<exists>w1. Scanner_stop demo_started = Inr w1 \<and> Scanner_stop w1 = Inr w1 \<and>
      current w1 = Stopped \<and> streaming w1 = {} \<and>
      trace w1 = trace demo_started @ [VideoSrc [], CameraStop 1, Emit InactiveEvent])"
proof -
  have h: "resources_ok demo_started"
    by (simp add: demo_started_eq resources_ok_def)
  obtain w1 where w1: "Scanner_stop demo_started = Inr w1" "Scanner_stop w1 = Inr w1"
    "current w1 = Stopped" "released w1"
    using stop_idempotent [OF h] by blast
  have "streaming w1 = {}"
    using w1(4) by (simp add: released_def split: if_splits)
  moreover have "trace w1 = trace demo_started @ [VideoSrc [], CameraStop 1, Emit InactiveEvent]"
    using w1(1)
    by (auto simp add: demo_started_eq Scanner_stop_def fsm_stop_def goto_def onleaveactive_def
        disableScan_def ActiveScan_stop_def tell_def Let_def)
  ultimately show ?thesis
    using h w1 by blast
qed

lemma enableScan_no_camera:
  "enableScan None w = Inl (Error ''Camera is not defined.'')" if "camera w = None"
  using that by (simp add: enableScan_def Let_def)

lemma enableScan_working:
  assumes "(case cam of None \<Rightarrow> camera w | Some c' \<Rightarrow> Some c') = Some c"
    and "cam_stream c = Some url"
  shows "\<exists>w'. enableScan cam w = Inr w' \<and> camera w' = Some c \<and> videoSrc w' = Some url \<and>
     active (scan w') \<and> cam_id c \<in> streaming w' \<and> current w' = current w \<and>
     trace w' = trace w @ [CameraStart (cam_id c), VideoSrc url, RequestFrame]"
  using assms
  by (simp add: enableScan_def ActiveScan_start_def tell_def Let_def)

section \<open>Entering the active state\<close>

text \<open>
  Claim C6. When \<^verbatim>\<open>activate\<close> leads to \<open>Active\<close>, the camera is the argument of
  \<^verbatim>\<open>start\<close> or, without one, the stored handle. With neither, the event rejects with
  the error \<^verbatim>\<open>Camera is not defined.\<close>, and so does the \<^verbatim>\<open>start\<close> that fired it,
  from any state of the machine. With a camera that delivers its stream, the camera is
  started, its stream becomes the video source, the scan loop is started and only
  then the \<^verbatim>\<open>active\<close> event is emitted.
\<close>

theorem enter_active_camera:
  "(can EvActivate (current w) \<and> condition w = Active \<and> cam = None \<and> camera w = None \<longrightarrow>
      fsm_activate cam w = Inl (Error ''Camera is not defined.'')) \<and>
   (condition w = Active \<and> cam = None \<and> camera w = None \<longrightarrow>
      Scanner_start cam w = Inl (Error ''Camera is not defined.'')) \<and>
   (can EvActivate (current w) \<and> condition w = Active \<and>
    (case cam of None \<Rightarrow> camera w | Some c' \<Rightarrow> Some c') = Some c \<and> cam_stream c = Some url \<longrightarrow>
      (\<exists>w'. fsm_activate cam w = Inr w' \<and> current w' = Active \<and> camera w' = Some c \<and>
         videoSrc w' = Some url \<and> active (scan w') \<and> cam_id c \<in> streaming w' \<and>
         trace w' = trace w @
           [CameraStart (cam_id c), VideoSrc url, RequestFrame, Emit ActiveEvent]))"
proof (intro conjI impI)
  assume a: "can EvActivate (current w) \<and> condition w = Active \<and> cam = None \<and> camera w = None"
  then have "enableScan cam (goto Active w) = Inl (Error ''Camera is not defined.'')"
    using enableScan_no_camera [of "goto Active w"] by simp
  then show "fsm_activate cam w = Inl (Error ''Camera is not defined.'')"
    using a by (simp add: fsm_activate_def onenteractive_def)
next
  assume a: "condition w = Active \<and> cam = None \<and> camera w = None"
  have s: "fsm_start None v = Inl (Error ''Camera is not defined.'')"
    if "current v = Stopped" "page v = page w" "camera v = None" for v
  proof -
    have "condition (goto Started v) = Active"
      using a that(2) by (simp add: condition_cases)
    moreover have "enableScan None (goto Active (goto Started v)) = Inl (Error ''Camera is not defined.'')"
      using enableScan_no_camera [of "goto Active (goto Started v)"] that(3) by simp
    ultimately show ?thesis
      using that(1) by (simp add: fsm_start_def onenteredstarted_def fsm_activate_def onenteractive_def)
  qed
  show "Scanner_start cam w = Inl (Error ''Camera is not defined.'')"
  proof (cases "current w = Stopped")
    case True
    then show ?thesis using s [of w] a by (simp add: Scanner_start_def)
  next
    case False
    then obtain w1 where w1: "fsm_stop w = Inr w1" "current w1 = Stopped" "page w1 = page w"
      "camera w1 = camera w"
      using fsm_stop_Inr [of w] by auto
    then show ?thesis
      using False s [of w1] a by (simp add: Scanner_start_def)
  qed
next
  assume a: "can EvActivate (current w) \<and> condition w = Active \<and>
    (case cam of None \<Rightarrow> camera w | Some c' \<Rightarrow> Some c') = Some c \<and> cam_stream c = Some url"
  then have "(case cam of None \<Rightarrow> camera (goto Active w) | Some c' \<Rightarrow> Some c') = Some c"
    by (cases cam) simp_all
  then obtain w1 where w1: "enableScan cam (goto Active w) = Inr w1" "camera w1 = Some c"
    "videoSrc w1 = Some url" "active (scan w1)" "cam_id c \<in> streaming w1"
    "current w1 = current (goto Active w)"
    "trace w1 = trace (goto Active w) @ [CameraStart (cam_id c), VideoSrc url, RequestFrame]"
    using enableScan_working [where w = "goto Active w" and cam = cam and c = c and url = url] a
    by blast
  have "fsm_activate cam w = Inr (tell (Emit ActiveEvent) w1)"
    using a w1(1) by (simp add: fsm_activate_def onenteractive_def)
  then show "\<exists>w'. fsm_activate cam w = Inr w' \<and> current w' = Active \<and> camera w' = Some c \<and>
         videoSrc w' = Some url \<and> active (scan w') \<and> cam_id c \<in> streaming w' \<and>
         trace w' = trace w @
           [CameraStart (cam_id c), VideoSrc url, RequestFrame, Emit ActiveEvent]"
    using w1 by (simp add: tell_def)
qed

theorem enter_active_camera_witness:
  "fsm_activate None (goto Started demo_new) = Inl (Error ''Camera is not defined.'') \<and>
   Scanner_start None demo_new = Inl (Error ''Camera is not defined.'') \<and>
   (\<exists>w'. fsm_activate (Some demo_camera) (goto Started demo_new) = Inr w' \<and>
      current w' = Active \<and> camera w' = Some demo_camera \<and> videoSrc w' = Some ''blob:1'' \<and>
      trace w' = [Emit InactiveEvent, CameraStart 1, VideoSrc ''blob:1'', RequestFrame,
        Emit ActiveEvent])"
  using enter_active_camera [of "goto Started demo_new" None]
    enter_active_camera [of demo_new None]
    enter_active_camera [of "goto Started demo_new" "Some demo_camera" demo_camera "''blob:1''"]
  by (auto simp add: demo_new_def demo_opts_def demo_camera_def new_Scanner_def configureVideo_def
      new_ActiveScan_def new_Analyzer_def condition_cases)

section \<open>The guard of activate\<close>

lemma activate_not_visible:
  assumes "can EvActivate (current w)" and "page w \<noteq> Visible"
  shows "fsm_activate cam w = Inr (goto Inactive w)"
  using assms by (simp add: fsm_activate_def condition_cases)

text \<open>
  Claim C1. The claim fails on the code where the page is hidden and \<^verbatim>\<open>backgroundScan\<close>
  is enabled: a scanner constructed with \<^verbatim>\<open>backgroundScan: true\<close> on a hidden page and
  started with a working camera fires \<^verbatim>\<open>activate\<close> from \<open>Started\<close> and ends in
  \<open>Inactive\<close>, with the camera never started.
\<close>

theorem hidden_background_start_inactive:
  "backgroundScan demo_hidden \<and> page demo_hidden = Hidden \<and>
   (\<exists>w. Scanner_start (Some demo_camera) demo_hidden = Inr w \<and>
      backgroundScan w \<and> current w = Inactive \<and>
      history w = [Stopped, Started, Inactive] \<and> trace w = [Emit InactiveEvent])"
proof -
  have v: "demo_hidden =
    \<lparr>backgroundScan = True, camera = None, videoSrc = None,
     scan = new_ActiveScan False 3 100, analyzer = new_Analyzer, current = Stopped,
     page = Hidden, clock = 0, zxDecodeResult = JUndefined, deferred = [], streaming = {},
     history = [Stopped], trace = [Emit InactiveEvent]\<rparr>"
    by (simp add: demo_hidden_def demo_background_opts_def demo_opts_def new_Scanner_def
        configureVideo_def)
  have "fsm_activate (Some demo_camera) (goto Started demo_hidden) =
      Inr (goto Inactive (goto Started demo_hidden))"
    by (rule activate_not_visible) (simp_all add: v)
  then have "Scanner_start (Some demo_camera) demo_hidden =
      Inr (goto Inactive (goto Started demo_hidden))"
    by (simp add: Scanner_start_def fsm_start_def onenteredstarted_def v)
  then show ?thesis
    by (simp add: v)
qed

section \<open>Facts about the duplicate check\<close>

lemma tell_simps [simp]:
  "clock (tell e w) = clock w" "analyzer (tell e w) = analyzer w"
  "deferred (tell e w) = deferred w" "current (tell e w) = current w"
  by (simp_all add: tell_def)


lemma tick_decoding:
  assumes "active (scan w)" and "frameCount (scan w) + 1 = scanPeriod (scan w)"
  shows "ActiveScan_scan f w =
     (case analyze f ((tell RequestFrame w)\<lparr>scan := (scan w)\<lparr>frameCount := 0\<rparr>\<rparr>) of
        (None, w2) \<Rightarrow> w2 | (Some an, w2) \<Rightarrow> suppress an w2)"
  using assms by (simp add: ActiveScan_scan_def Let_def)






lemma elapse_clock [simp]: "clock (elapse dt w) = clock w + dt"
  by (simp add: elapse_def deliver_def expire_def split: option.splits)

lemma elapse_deferred [simp]: "deferred (elapse dt w) = []"
  by (simp add: elapse_def deliver_def expire_def split: option.splits)




lemma run_keeps:
  "active (scan (run ts w)) = active (scan w) \<and>
   scanPeriod (scan (run ts w)) = scanPeriod (scan w) \<and>
   refractoryPeriod (scan (run ts w)) = refractoryPeriod (scan w) \<and>
   captureImage (scan (run ts w)) = captureImage (scan w)"
proof (induction ts arbitrary: w)
  case Nil
  then show ?case by (simp add: run_def)
next
  case (Cons t ts)
  then show ?case
    by (cases t) (simp_all add: run_Cons tick_keeps elapse_keeps)
qed

section \<open>The refractory period\<close>






section \<open>The configuration\<close>

lemma fsm_start_config:
  assumes "fsm_start cam w = Inr w'"
  shows "refractoryPeriod (scan w') = refractoryPeriod (scan w) \<and>
    scanPeriod (scan w') = scanPeriod (scan w) \<and> captureImage (scan w') = captureImage (scan w)"
  using fsm_start_Inr(5) [OF assms] by (simp split: if_splits)

lemma Scanner_start_config:
  assumes "Scanner_start cam w = Inr w'"
  shows "refractoryPeriod (scan w') = refractoryPeriod (scan w) \<and>
    scanPeriod (scan w') = scanPeriod (scan w) \<and> captureImage (scan w') = captureImage (scan w)"
proof (cases "current w = Stopped")
  case True
  then have "fsm_start cam w = Inr w'" using assms by (simp add: Scanner_start_def)
  then show ?thesis by (rule fsm_start_config)
next
  case False
  then obtain w1 where w1: "fsm_stop w = Inr w1"
    "scan w1 = (if current w = Active then (scan w)\<lparr>active := False\<rparr> else scan w)"
    using fsm_stop_Inr [of w] by auto
  then have "fsm_start cam w1 = Inr w'"
    using assms False by (simp add: Scanner_start_def)
  then show ?thesis
    using fsm_start_config [of cam w1 w'] w1(2) by (simp split: if_splits)
qed

lemma Scanner_stop_config:
  assumes "Scanner_stop w = Inr w'"
  shows "refractoryPeriod (scan w') = refractoryPeriod (scan w) \<and>
    scanPeriod (scan w') = scanPeriod (scan w) \<and> captureImage (scan w') = captureImage (scan w)"
proof (cases "current w = Stopped")
  case True
  then show ?thesis using assms by (simp add: Scanner_stop_def)
next
  case False
  then obtain w1 where w1: "fsm_stop w = Inr w1"
    "scan w1 = (if current w = Active then (scan w)\<lparr>active := False\<rparr> else scan w)"
    using fsm_stop_Inr [of w] by auto
  then have "w' = w1"
    using assms False by (cases "current w") (simp_all add: Scanner_stop_def)
  then show ?thesis
    using w1(2) by (simp split: if_splits)
qed

lemma on_hidden_config:
  assumes "on_hidden vis w = Inr w'"
  shows "refractoryPeriod (scan w') = refractoryPeriod (scan w) \<and>
    scanPeriod (scan w') = scanPeriod (scan w) \<and> captureImage (scan w') = captureImage (scan w)"
  using assms
  by (auto simp add: on_hidden_def fsm_deactivate_def Let_def split: if_splits)

lemma on_visible_task_config:
  assumes "on_visible_task w = Inr w'"
  shows "refractoryPeriod (scan w') = refractoryPeriod (scan w) \<and>
    scanPeriod (scan w') = scanPeriod (scan w) \<and> captureImage (scan w') = captureImage (scan w)"
proof (cases "can EvActivate (current w)")
  case True
  then have "fsm_activate None w = Inr w'"
    using assms by (simp add: on_visible_task_def)
  then show ?thesis
    using fsm_activate_Inr(5) [of None w w'] by (simp split: if_splits)
next
  case False
  then show ?thesis using assms by (simp add: on_visible_task_def)
qed

text \<open>
  Claim C10. The constructor turns \<^verbatim>\<open>scanPeriod: 0\<close> into 1 and \<^verbatim>\<open>refractoryPeriod: 0\<close>
  into 5000, and never yields a zero period; a zero option does not make it fail.
  Assigning 0 to the \<^verbatim>\<open>refractoryPeriod\<close> property does give a zero refractory
  period, and nothing else changes the period: not a run of the loop, not the other
  setters, not \<^verbatim>\<open>start\<close>, \<^verbatim>\<open>stop\<close> or the visibility handler.
\<close>

theorem zero_periods_defaulted:
  "(\<forall>w. new_Scanner opts vis = Inr w \<longrightarrow>
      (opt_scanPeriod opts = Some 0 \<longrightarrow> get_scanPeriod w = 1) \<and>
      (opt_refractoryPeriod opts = Some 0 \<longrightarrow> get_refractoryPeriod w = 5000) \<and>
      get_scanPeriod w \<noteq> 0 \<and> get_refractoryPeriod w \<noteq> 0) \<and>
   (opt_video opts = None \<longrightarrow> (\<exists>w. new_Scanner opts vis = Inr w)) \<and>
   get_refractoryPeriod (set_refractoryPeriod 0 v) = 0 \<and>
   get_refractoryPeriod (run ts v) = get_refractoryPeriod v \<and>
   get_refractoryPeriod (set_scanPeriod n v) = get_refractoryPeriod v \<and>
   get_refractoryPeriod (set_captureImage b v) = get_refractoryPeriod v \<and>
   (\<forall>v'. Scanner_start cam v = Inr v' \<longrightarrow> get_refractoryPeriod v' = get_refractoryPeriod v) \<and>
   (\<forall>v'. Scanner_stop v = Inr v' \<longrightarrow> get_refractoryPeriod v' = get_refractoryPeriod v) \<and>
   (\<forall>v'. on_hidden vis' v = Inr v' \<longrightarrow> get_refractoryPeriod v' = get_refractoryPeriod v) \<and>
   (\<forall>v'. on_visible_task v = Inr v' \<longrightarrow> get_refractoryPeriod v' = get_refractoryPeriod v)"
proof (intro conjI allI impI)
  fix w assume n: "new_Scanner opts vis = Inr w"
  then have s: "scan w = new_ActiveScan (or_bool (opt_captureImage opts) False)
      (or_int (opt_scanPeriod opts) 1) (or_int (opt_refractoryPeriod opts) (5 * 1000))"
    by (auto simp add: new_Scanner_def split: sum.splits)
  show "get_scanPeriod w \<noteq> 0"
    using s by (cases "opt_scanPeriod opts") (simp_all add: get_scanPeriod_def new_ActiveScan_def)
  show "get_refractoryPeriod w \<noteq> 0"
    using s by (cases "opt_refractoryPeriod opts")
      (simp_all add: get_refractoryPeriod_def new_ActiveScan_def)
  { assume "opt_scanPeriod opts = Some 0"
    then show "get_scanPeriod w = 1"
      using s by (simp add: get_scanPeriod_def new_ActiveScan_def) }
  { assume "opt_refractoryPeriod opts = Some 0"
    then show "get_refractoryPeriod w = 5000"
      using s by (simp add: get_refractoryPeriod_def new_ActiveScan_def) }
next
  assume "opt_video opts = None"
  then show "\<exists>w. new_Scanner opts vis = Inr w"
    by (simp add: new_Scanner_def configureVideo_def)
next
  show "get_refractoryPeriod (set_refractoryPeriod 0 v) = 0"
    by (simp add: get_refractoryPeriod_def set_refractoryPeriod_def)
  show "get_refractoryPeriod (run ts v) = get_refractoryPeriod v"
    using run_keeps [of ts v] by (simp add: get_refractoryPeriod_def)
  show "get_refractoryPeriod (set_scanPeriod n v) = get_refractoryPeriod v"
    by (simp add: get_refractoryPeriod_def set_scanPeriod_def)
  show "get_refractoryPeriod (set_captureImage b v) = get_refractoryPeriod v"
    by (simp add: get_refractoryPeriod_def set_captureImage_def)
next
  fix v' assume "Scanner_start cam v = Inr v'"
  then show "get_refractoryPeriod v' = get_refractoryPeriod v"
    using Scanner_start_config by (simp add: get_refractoryPeriod_def)
next
  fix v' assume "Scanner_stop v = Inr v'"
  then show "get_refractoryPeriod v' = get_refractoryPeriod v"
    using Scanner_stop_config by (simp add: get_refractoryPeriod_def)
next
  fix v' assume "on_hidden vis' v = Inr v'"
  then show "get_refractoryPeriod v' = get_refractoryPeriod v"
    using on_hidden_config by (simp add: get_refractoryPeriod_def)
next
  fix v' assume "on_visible_task v = Inr v'"
  then show "get_refractoryPeriod v' = get_refractoryPeriod v"
    using on_visible_task_config by (simp add: get_refractoryPeriod_def)
qed

theorem zero_periods_defaulted_witness:
  "(\<exists>w. new_Scanner (demo_opts\<lparr>opt_scanPeriod := Some 0, opt_refractoryPeriod := Some 0\<rparr>)
        Visible = Inr w \<and> get_scanPeriod w = 1 \<and> get_refractoryPeriod w = 5000) \<and>
   get_refractoryPeriod (set_refractoryPeriod 0 demo_started) = 0 \<and>
   get_refractoryPeriod (run [Frame frame_X, Elapse 7] demo_started) = 100 \<and>
   (\<exists>v'. Scanner_stop demo_started = Inr v' \<and> get_refractoryPeriod v' = 100)"
proof -
  let ?o = "demo_opts\<lparr>opt_scanPeriod := Some 0, opt_refractoryPeriod := Some 0\<rparr>"
  note t = zero_periods_defaulted [of ?o Visible demo_started "[Frame frame_X, Elapse 7]"]
  have o: "opt_video ?o = None" "opt_scanPeriod ?o = Some 0" "opt_refractoryPeriod ?o = Some 0"
    by (simp_all add: demo_opts_def)
  obtain w where w: "new_Scanner ?o Visible = Inr w"
    using t o(1) by blast
  have "get_scanPeriod w = 1" "get_refractoryPeriod w = 5000"
    using t w o(2,3) by blast+
  moreover have "get_refractoryPeriod demo_started = 100"
    by (simp add: demo_started_eq get_refractoryPeriod_def)
  moreover obtain v' where "Scanner_stop demo_started = Inr v'"
    by (simp add: demo_started_eq Scanner_stop_def fsm_stop_def)
  ultimately show ?thesis
    using t w by metis
qed

section \<open>Lowering the scan period\<close>

lemma tick_stalled:
  assumes "active (scan w)" and "scanPeriod (scan w) \<le> frameCount (scan w)"
  shows "analyze_calls (ActiveScan_scan f w) = analyze_calls w"
    "frameCount (scan (ActiveScan_scan f w)) = frameCount (scan w) + 1"
  using assms by (simp_all add: ActiveScan_scan_def Let_def analyze_calls_def)

lemma run_stalled:
  assumes "active (scan w)" and "scanPeriod (scan w) \<le> frameCount (scan w)"
  shows "analyze_calls (run ts w) = analyze_calls w \<and>
    frameCount (scan (run ts w)) = frameCount (scan w) + int (frames ts)"
  using assms
proof (induction ts arbitrary: w)
  case Nil
  then show ?case by (simp add: run_def frames_def)
next
  case (Cons t ts)
  show ?case
  proof (cases t)
    case (Frame f)
    let ?w = "ActiveScan_scan f w"
    have "analyze_calls (run ts ?w) = analyze_calls ?w \<and>
      frameCount (scan (run ts ?w)) = frameCount (scan ?w) + int (frames ts)"
      using Cons.prems tick_stalled(2) [OF Cons.prems, of f]
      by (intro Cons.IH) (simp_all add: tick_keeps)
    then show ?thesis
      using Frame tick_stalled [OF Cons.prems, of f] by (simp add: run_Cons frames_Cons)
  next
    case (Elapse dt)
    let ?w = "elapse dt w"
    have "analyze_calls (run ts ?w) = analyze_calls ?w \<and>
      frameCount (scan (run ts ?w)) = frameCount (scan ?w) + int (frames ts)"
      using Cons.prems by (intro Cons.IH) (simp_all add: elapse_keeps)
    then show ?thesis
      using Elapse by (simp add: run_Cons frames_Cons elapse_keeps elapse_analyze_calls)
  qed
qed

text \<open>
  Claim C8. The setters write the fields that the next tick reads, but the claim fails
  on the code when the new period is not above the frame counter: on the running
  scanner whose counter is at 2 (period 3), assigning \<^verbatim>\<open>scanPeriod = 2\<close> takes effect,
  and from then on no sequence of turns, however long, invokes \<^verbatim>\<open>analyze\<close> again.
\<close>

theorem lowered_scanPeriod_never_decodes:
  "active (scan demo_armed) \<and> frameCount (scan demo_armed) = 2 \<and>
   get_scanPeriod (set_scanPeriod 2 demo_armed) = 2 \<and>
   (\<forall>ts. analyze_calls (run ts (set_scanPeriod 2 demo_armed)) = analyze_calls demo_armed)"
proof -
  have a: "active (scan (set_scanPeriod 2 demo_armed))"
    "scanPeriod (scan (set_scanPeriod 2 demo_armed)) \<le> frameCount (scan (set_scanPeriod 2 demo_armed))"
    by (simp_all add: set_scanPeriod_def demo_armed_eq)
  have "analyze_calls (run ts (set_scanPeriod 2 demo_armed)) = analyze_calls demo_armed" for ts
    using run_stalled [OF a, of ts] by (simp add: set_scanPeriod_def analyze_calls_def)
  then show ?thesis
    by (simp add: set_scanPeriod_def get_scanPeriod_def demo_armed_eq)
qed

section \<open>The resource invariant\<close>

text \<open>
  The invariant that the theorem on \<^verbatim>\<open>stop\<close> assumes holds of every scanner the
  constructor returns and is kept by the scan loop, the setters, \<^verbatim>\<open>start\<close>,
  \<^verbatim>\<open>stop\<close> and the visibility handler, whenever they resolve.
\<close>

lemma analyze_resources:
  "current (snd (analyze f w)) = current w \<and> camera (snd (analyze f w)) = camera w \<and>
   streaming (snd (analyze f w)) = streaming w"
  by (simp add: analyze_def tell_def Let_def split: jsval.splits)

lemma suppress_resources:
  "current (suppress an w) = current w \<and> camera (suppress an w) = camera w \<and>
   streaming (suppress an w) = streaming w"
  by (simp add: suppress_def split: prod.splits jsval.splits)

lemma tick_resources:
  "current (ActiveScan_scan f w) = current w \<and> camera (ActiveScan_scan f w) = camera w \<and>
   streaming (ActiveScan_scan f w) = streaming w"
proof -
  let ?w1 = "(tell RequestFrame w)\<lparr>scan := (scan w)\<lparr>frameCount := 0\<rparr>\<rparr>"
  obtain a w2 where a: "analyze f ?w1 = (a, w2)"
    by (cases "analyze f ?w1")
  then have "w2 = snd (analyze f ?w1)" by simp
  then have r: "current w2 = current w \<and> camera w2 = camera w \<and> streaming w2 = streaming w"
    using analyze_resources [of f ?w1] by (simp add: tell_def)
  show ?thesis
  proof (cases "active (scan w) \<and> frameCount (scan w) + 1 = scanPeriod (scan w)")
    case True
    then show ?thesis
      using a r by (cases a) (simp_all add: tick_decoding suppress_resources)
  next
    case False
    then show ?thesis by (auto simp add: ActiveScan_scan_def Let_def tell_def)
  qed
qed

lemma elapse_resources:
  "current (elapse dt w) = current w \<and> camera (elapse dt w) = camera w \<and>
   streaming (elapse dt w) = streaming w"
  by (simp add: elapse_def deliver_def expire_def split: option.splits)

lemma resources_ok_cong:
  assumes "current w' = current w" and "camera w' = camera w"
    and "streaming w' = streaming w" and "active (scan w') = active (scan w)"
  shows "resources_ok w' = resources_ok w"
  using assms by (simp add: resources_ok_def released_def split: option.splits)

lemma resources_ok_step: "resources_ok (step w t) = resources_ok w"
proof (cases t)
  case (Frame f)
  have "resources_ok (ActiveScan_scan f w) = resources_ok w"
    using tick_resources [of f w] by (intro resources_ok_cong) (simp_all add: tick_keeps)
  then show ?thesis using Frame by simp
next
  case (Elapse dt)
  have "resources_ok (elapse dt w) = resources_ok w"
    using elapse_resources [of dt w] by (intro resources_ok_cong) (simp_all add: elapse_keeps)
  then show ?thesis using Elapse by simp
qed

lemma resources_ok_run: "resources_ok (run ts w) = resources_ok w"
  by (induction ts arbitrary: w) (simp_all add: run_def resources_ok_step)

lemma resources_ok_new: "new_Scanner opts vis = Inr w \<Longrightarrow> resources_ok w"
  by (auto simp add: new_Scanner_def new_ActiveScan_def resources_ok_def released_def
      split: sum.splits)

lemma resources_ok_setters:
  "resources_ok (set_scanPeriod n w) = resources_ok w"
  "resources_ok (set_refractoryPeriod n w) = resources_ok w"
  "resources_ok (set_captureImage b w) = resources_ok w"
proof -
  show "resources_ok (set_scanPeriod n w) = resources_ok w"
    by (rule resources_ok_cong) (simp_all add: set_scanPeriod_def)
  show "resources_ok (set_refractoryPeriod n w) = resources_ok w"
    by (rule resources_ok_cong) (simp_all add: set_refractoryPeriod_def)
  show "resources_ok (set_captureImage b w) = resources_ok w"
    by (rule resources_ok_cong) (simp_all add: set_captureImage_def)
qed

lemma resources_ok_activate:
  assumes "released w" and "fsm_activate cam w = Inr w'"
  shows "resources_ok w'"
proof (cases "condition w = Active")
  case True
  then have e: "onenteractive cam (goto Active w) = Inr w'"
    using assms(2) by (auto simp add: fsm_activate_def split: if_splits)
  obtain c where "camera w' = Some c" "streaming w' = insert (cam_id c) (streaming (goto Active w))"
    using onenteractive_Inr(6) [OF e] by blast
  moreover have "streaming w = {}"
    using assms(1) by (simp add: released_def split: if_splits)
  moreover have "current w' = Active"
    using onenteractive_Inr(2) [OF e] by simp
  ultimately show ?thesis
    by (simp add: resources_ok_def)
next
  case False
  then have "w' = goto (condition w) w"
    using assms(2) by (auto simp add: fsm_activate_def split: if_splits)
  then show ?thesis
    using False assms(1) by (simp add: resources_ok_def)
qed

lemma resources_ok_fsm_start:
  assumes "released w" and "fsm_start cam w = Inr w'"
  shows "resources_ok w'"
proof -
  have "fsm_activate cam (goto Started w) = Inr w'"
    using assms(2) by (auto simp add: fsm_start_def onenteredstarted_def split: if_splits)
  then show ?thesis
    using assms(1) by (intro resources_ok_activate [of "goto Started w" cam]) simp_all
qed

lemma resources_ok_start:
  assumes "resources_ok w" and "Scanner_start cam w = Inr w'"
  shows "resources_ok w'"
proof (cases "current w = Stopped")
  case True
  then have "released w" "fsm_start cam w = Inr w'"
    using assms by (simp_all add: resources_ok_def Scanner_start_def)
  then show ?thesis by (rule resources_ok_fsm_start)
next
  case False
  then obtain w1 where w1: "fsm_stop w = Inr w1" "released w1"
    using fsm_stop_released [OF assms(1)] by blast
  then have "fsm_start cam w1 = Inr w'"
    using assms(2) False by (simp add: Scanner_start_def)
  then show ?thesis
    using w1(2) by (intro resources_ok_fsm_start [of w1 cam])
qed

lemma resources_ok_stop:
  assumes "resources_ok w" and "Scanner_stop w = Inr w'"
  shows "resources_ok w'"
proof (cases "current w = Stopped")
  case True
  then show ?thesis using assms by (simp add: Scanner_stop_def)
next
  case False
  then obtain w1 where w1: "fsm_stop w = Inr w1" "current w1 = Stopped" "released w1"
    using fsm_stop_released [OF assms(1)] by blast
  then have "w' = w1"
    using assms(2) False by (cases "current w") (simp_all add: Scanner_stop_def)
  then show ?thesis
    using w1 by (simp add: resources_ok_def)
qed

lemma resources_ok_visible_task:
  assumes "resources_ok w" and "on_visible_task w = Inr w'"
  shows "resources_ok w'"
proof (cases "can EvActivate (current w)")
  case True
  then have "released w" "fsm_activate None w = Inr w'"
    using assms by (auto simp add: resources_ok_def on_visible_task_def)
  then show ?thesis by (rule resources_ok_activate)
next
  case False
  then show ?thesis using assms by (simp add: on_visible_task_def)
qed

lemma resources_ok_hidden:
  assumes "resources_ok w" and "on_hidden vis w = Inr w'"
  shows "resources_ok w'"
proof -
  let ?w = "w\<lparr>page := vis\<rparr>"
  have "resources_ok ?w = resources_ok w"
    by (rule resources_ok_cong) simp_all
  then have r: "resources_ok ?w"
    using assms(1) by simp
  have h: "on_hidden vis w =
      (if backgroundScan w then Inr ?w
       else if can EvDeactivate (current w) then fsm_deactivate ?w else Inr ?w)"
    by (simp add: on_hidden_def Let_def)
  show ?thesis
  proof (cases "backgroundScan w \<or> \<not> can EvDeactivate (current w)")
    case True
    then have "w' = ?w" using assms(2) h by (auto split: if_splits)
    then show ?thesis using r by simp
  next
    case False
    then have d: "w' = goto Inactive (if current w = Active then onleaveactive ?w else ?w)"
      using assms(2) h by (auto simp add: fsm_deactivate_def split: if_splits)
    show ?thesis
    proof (cases "current w = Active")
      case True
      then obtain c where c: "camera ?w = Some c" "streaming ?w = {cam_id c}"
        using assms(1) by (auto simp add: resources_ok_def split: option.splits)
      show ?thesis
        using True d released_after_leave [OF c] by (simp add: resources_ok_def)
    next
      case False
      then have "released ?w" using r by (simp add: resources_ok_def)
      then show ?thesis using False d by (simp add: resources_ok_def)
    qed
  qed
qed

end
